theory Spec2Isabelle
  imports Complex_Main
begin

section \<open>Python strings\<close>

text \<open>
  The script \<^verbatim>\<open>deduplicacao_assinatura.py\<close> works on Python \<^verbatim>\<open>str\<close> values.
  A string is modelled as a \<^typ>\<open>string\<close> whose characters are read as the code
  points U+0000 .. U+00FF; the character classes below are the ones CPython uses on that
  range: \<^verbatim>\<open>str.isspace\<close> (also the class \<^verbatim>\<open>\s\<close> of \<^verbatim>\<open>re\<close> and the separators of
  \<^verbatim>\<open>str.split()\<close> and \<^verbatim>\<open>str.strip()\<close>), the word characters \<^verbatim>\<open>\w\<close>
  (alphanumeric or underscore), and \<^verbatim>\<open>str.lower\<close>.
\<close>

definition is_space_py :: "char \<Rightarrow> bool" where
  "is_space_py c =
     (let n = (of_char c :: nat)
      in (9 \<le> n \<and> n \<le> 13) \<or> (28 \<le> n \<and> n \<le> 32) \<or> n = 133 \<or> n = 160)"

definition is_word_py :: "char \<Rightarrow> bool" where
  "is_word_py c =
     (let n = (of_char c :: nat)
      in (48 \<le> n \<and> n \<le> 57) \<or> (65 \<le> n \<and> n \<le> 90) \<or> n = 95 \<or> (97 \<le> n \<and> n \<le> 122)
         \<or> n = 170 \<or> n = 178 \<or> n = 179 \<or> n = 181 \<or> n = 185 \<or> n = 186
         \<or> (188 \<le> n \<and> n \<le> 190) \<or> (192 \<le> n \<and> n \<le> 214)
         \<or> (216 \<le> n \<and> n \<le> 246) \<or> (248 \<le> n \<and> n \<le> 255))"

definition lower_char :: "char \<Rightarrow> char" where
  "lower_char c =
     (let n = (of_char c :: nat)
      in if (65 \<le> n \<and> n \<le> 90) \<or> (192 \<le> n \<and> n \<le> 214) \<or> (216 \<le> n \<and> n \<le> 222)
         then char_of (n + 32) else c)"

definition lower_py :: "string \<Rightarrow> string" where
  "lower_py s = map lower_char s"

definition strip_py :: "string \<Rightarrow> string" where
  "strip_py s = rev (dropWhile is_space_py (rev (dropWhile is_space_py s)))"

text \<open>
  \<^verbatim>\<open>s.split()\<close>: one left-to-right scan; \<open>cur\<close> is the token being read, a run of
  whitespace ends it, and empty tokens are never produced.
\<close>

fun split_scan :: "string \<Rightarrow> string \<Rightarrow> string list" where
  "split_scan cur [] = (if cur = [] then [] else [cur])"
| "split_scan cur (c # cs) =
     (if is_space_py c
      then (if cur = [] then split_scan [] cs else cur # split_scan [] cs)
      else split_scan (cur @ [c]) cs)"

definition split_py :: "string \<Rightarrow> string list" where
  "split_py s = split_scan [] s"

subsection \<open>The two substitutions of \<^verbatim>\<open>normalize_nome\<close>\<close>

text \<open>
  \<^verbatim>\<open>re.sub(r"\b(de|da|do|das|dos)\b", "", nome)\<close>. The scan keeps whether the
  character before the current position is a word character (\<open>False\<close> at the start of
  the string). \<^verbatim>\<open>\b\<close> holds where that differs from the character at the position
  (no word character at the end of the string). The alternatives are tried in the order of
  the pattern; one is taken when the text starts with it and \<^verbatim>\<open>\b\<close> holds behind
  it. A match is replaced by nothing and the scan goes on behind it; elsewhere the
  character is copied.
\<close>

definition connectors :: "string list" where
  "connectors = [''de'', ''da'', ''do'', ''das'', ''dos'']"

definition word_boundary :: "bool \<Rightarrow> string \<Rightarrow> bool" where
  "word_boundary pw s = (pw \<noteq> (case s of [] \<Rightarrow> False | c # _ \<Rightarrow> is_word_py c))"

fun match_alts :: "string list \<Rightarrow> string \<Rightarrow> (string \<times> string) option" where
  "match_alts [] s = None"
| "match_alts (w # ws) s =
     (if take (length w) s = w \<and> word_boundary (is_word_py (last w)) (drop (length w) s)
      then Some (w, drop (length w) s)
      else match_alts ws s)"

definition match_conn :: "bool \<Rightarrow> string \<Rightarrow> (string \<times> string) option" where
  "match_conn pw s = (if word_boundary pw s then match_alts connectors s else None)"

lemma match_alts_shorter:
  "match_alts ws s = Some (w, r) \<Longrightarrow> [] \<notin> set ws \<Longrightarrow> s = w @ r \<and> w \<in> set ws"
proof (induction ws)
  case Nil
  then show ?case by simp
next
  case (Cons a ws)
  show ?case
  proof (cases "take (length a) s = a \<and> word_boundary (is_word_py (last a)) (drop (length a) s)")
    case True
    with Cons.prems have "w = a" "r = drop (length a) s" by auto
    moreover from True have "a @ drop (length a) s = s"
      by (metis append_take_drop_id)
    ultimately show ?thesis by simp
  next
    case False
    with Cons show ?thesis by auto
  qed
qed

lemma match_conn_parts:
  "match_conn pw s = Some (w, r) \<Longrightarrow> s = w @ r \<and> w \<in> set connectors"
proof -
  assume m: "match_conn pw s = Some (w, r)"
  then have "match_alts connectors s = Some (w, r)"
    by (cases "word_boundary pw s") (simp_all add: match_conn_def)
  moreover have "[] \<notin> set connectors"
    by (simp add: connectors_def)
  ultimately show ?thesis
    by (rule match_alts_shorter)
qed

lemma match_conn_length:
  "match_conn pw s = Some (w, r) \<Longrightarrow> length r < length s"
  by (drule match_conn_parts) (auto simp: connectors_def)

function sub_conn :: "bool \<Rightarrow> string \<Rightarrow> string" where
  "sub_conn pw [] = []"
| "sub_conn pw (c # cs) =
     (case match_conn pw (c # cs) of
        Some (w, rest) \<Rightarrow> sub_conn (is_word_py (last w)) rest
      | None \<Rightarrow> c # sub_conn (is_word_py c) cs)"
  by pat_completeness auto
termination
  by (relation "measure (\<lambda>(pw, s). length s)") (auto dest: match_conn_length)

text \<open>\<^verbatim>\<open>re.sub(r"\s+", " ", nome)\<close>: every maximal run of whitespace becomes one space.\<close>

function collapse_ws :: "string \<Rightarrow> string" where
  "collapse_ws [] = []"
| "collapse_ws (c # cs) =
     (if is_space_py c then CHR '' '' # collapse_ws (dropWhile is_space_py cs)
      else c # collapse_ws cs)"
  by pat_completeness auto
termination
  by (relation "measure length") (auto simp: length_dropWhile_le less_Suc_eq_le)

definition normalize_nome :: "string \<Rightarrow> string" where
  "normalize_nome nome = strip_py (collapse_ws (sub_conn False (lower_py nome)))"

section \<open>Fingerprint construction\<close>

text \<open>
  The values \<^verbatim>\<open>extract_first_last\<close> returns: a \<^verbatim>\<open>str\<close>, or a 2-tuple of
  \<^verbatim>\<open>str\<close>. An f-string formats a value with \<^verbatim>\<open>str()\<close>: a string as it is, a
  tuple as the \<^verbatim>\<open>repr\<close> of its items between parentheses. \<^verbatim>\<open>repr\<close> of a string
  quotes it with \<^verbatim>\<open>'\<close> (with \<^verbatim>\<open>"\<close> when the string has a \<^verbatim>\<open>'\<close> and no
  \<^verbatim>\<open>"\<close>) and escapes the quote, the backslash and the characters that are not
  printable.
\<close>

datatype pyval = PStr string | PTuple2 string string

datatype py_error = IndexError

definition hex_digit :: "nat \<Rightarrow> char" where
  "hex_digit n = ''0123456789abcdef'' ! (n mod 16)"

definition repr_char :: "char \<Rightarrow> char \<Rightarrow> string" where
  "repr_char q c =
     (let n = (of_char c :: nat)
      in if c = q \<or> n = 92 then [CHR 0x5C, c]
         else if n = 9 then [CHR 0x5C, CHR ''t'']
         else if n = 10 then [CHR 0x5C, CHR ''n'']
         else if n = 13 then [CHR 0x5C, CHR ''r'']
         else if n < 32 \<or> (127 \<le> n \<and> n \<le> 160) \<or> n = 173
           then [CHR 0x5C, CHR ''x'', hex_digit (n div 16), hex_digit n]
         else [c])"

definition repr_str :: "string \<Rightarrow> string" where
  "repr_str s =
     (let q = (if CHR 0x27 \<in> set s \<and> CHR 0x22 \<notin> set s then CHR 0x22 else CHR 0x27)
      in [q] @ concat (map (repr_char q) s) @ [q])"

fun py_str :: "pyval \<Rightarrow> string" where
  "py_str (PStr s) = s"
| "py_str (PTuple2 a b) = ''('' @ repr_str a @ '', '' @ repr_str b @ '')''"

text \<open>
  \<^verbatim>\<open>return partes[0], partes[-1] if len(partes) > 1 else (partes[0], partes[0])\<close>:
  the conditional expression binds tighter than the comma, so the result is always a
  pair whose first item is \<^verbatim>\<open>partes[0]\<close> and whose second item is the conditional
  expression. \<^verbatim>\<open>partes[0]\<close> is evaluated first and raises \<^verbatim>\<open>IndexError\<close> on the
  empty list.
\<close>

definition extract_first_last :: "string \<Rightarrow> py_error + (pyval \<times> pyval)" where
  "extract_first_last nome =
     (let partes = split_py (strip_py nome)
      in case partes of
           [] \<Rightarrow> Inl IndexError
         | p # _ \<Rightarrow>
             Inr (PStr p, if length partes > 1 then PStr (last partes) else PTuple2 p p))"

text \<open>\<^verbatim>\<open>x or ""\<close>: \<^verbatim>\<open>None\<close> and the empty string both give the empty string.\<close>

definition or_empty :: "string option \<Rightarrow> string" where
  "or_empty x = (case x of None \<Rightarrow> [] | Some s \<Rightarrow> s)"

definition gerar_assinatura ::
  "string option \<Rightarrow> string \<Rightarrow> string option \<Rightarrow> string \<Rightarrow> py_error + string" where
  "gerar_assinatura nome_aluno data_nasc nome_mae sexo =
     (let nome_aluno' = normalize_nome (or_empty nome_aluno);
          nome_mae' = normalize_nome (or_empty nome_mae)
      in case extract_first_last nome_aluno' of
           Inl e \<Rightarrow> Inl e
         | Inr (pn_a, un_a) \<Rightarrow>
            (case extract_first_last nome_mae' of
               Inl e \<Rightarrow> Inl e
             | Inr (pn_m, un_m) \<Rightarrow>
                 Inr (py_str pn_a @ '' '' @ py_str un_a @ '' '' @ data_nasc @ '' ''
                      @ py_str pn_m @ '' '' @ py_str un_m @ '' '' @ sexo)))"

section \<open>The normalizer over an arbitrary alphabet\<close>

text \<open>
  \<^verbatim>\<open>normalize_nome\<close> calls four library functions, \<^verbatim>\<open>str.lower\<close>, \<^verbatim>\<open>re.sub\<close>
  (twice) and \<^verbatim>\<open>str.strip\<close>, whose behaviour on a Python \<^verbatim>\<open>str\<close> rests on the
  character tables of the interpreter. Here the function is written once more with these
  tables as parameters, for strings over any type \<open>'a\<close> of characters:
  \<^item> \<open>S\<close>: the whitespace characters (\<^verbatim>\<open>str.isspace\<close>, which \<^verbatim>\<open>\s\<close> and
    \<^verbatim>\<open>strip()\<close> use);
  \<^item> \<open>W\<close>: the word characters (\<^verbatim>\<open>\w\<close>, on which \<^verbatim>\<open>\b\<close> rests);
  \<^item> \<open>lower\<close>: \<^verbatim>\<open>str.lower\<close>, a function on strings (it need not work character by
    character, nor keep the length);
  \<^item> \<open>ch\<close>: the character of \<open>'a\<close> that a character written in the script stands for
    (the letters of the pattern \<^verbatim>\<open>de|da|do|das|dos\<close> and the space of the replacement).
  The definitions of the previous section are the instance for the code points below 256.
\<close>

definition strip_of :: "('a \<Rightarrow> bool) \<Rightarrow> 'a list \<Rightarrow> 'a list" where
  "strip_of S s = rev (dropWhile S (rev (dropWhile S s)))"

definition connectors_of :: "(char \<Rightarrow> 'a) \<Rightarrow> 'a list list" where
  "connectors_of ch = map (map ch) connectors"

definition word_boundary_of :: "('a \<Rightarrow> bool) \<Rightarrow> bool \<Rightarrow> 'a list \<Rightarrow> bool" where
  "word_boundary_of W pw s = (pw \<noteq> (case s of [] \<Rightarrow> False | c # _ \<Rightarrow> W c))"

fun match_alts_of ::
  "('a \<Rightarrow> bool) \<Rightarrow> 'a list list \<Rightarrow> 'a list \<Rightarrow> ('a list \<times> 'a list) option" where
  "match_alts_of W [] s = None"
| "match_alts_of W (w # ws) s =
     (if take (length w) s = w \<and> word_boundary_of W (W (last w)) (drop (length w) s)
      then Some (w, drop (length w) s)
      else match_alts_of W ws s)"

definition match_conn_of ::
  "('a \<Rightarrow> bool) \<Rightarrow> (char \<Rightarrow> 'a) \<Rightarrow> bool \<Rightarrow> 'a list \<Rightarrow> ('a list \<times> 'a list) option" where
  "match_conn_of W ch pw s =
     (if word_boundary_of W pw s then match_alts_of W (connectors_of ch) s else None)"

lemma match_alts_of_parts:
  "match_alts_of W ws s = Some (w, r) \<Longrightarrow> s = w @ r \<and> w \<in> set ws"
proof (induction ws)
  case Nil
  then show ?case by simp
next
  case (Cons a ws)
  show ?case
  proof (cases "take (length a) s = a
                \<and> word_boundary_of W (W (last a)) (drop (length a) s)")
    case True
    with Cons.prems have "w = a" "r = drop (length a) s" by auto
    moreover from True have "a @ drop (length a) s = s"
      by (metis append_take_drop_id)
    ultimately show ?thesis by simp
  next
    case False
    with Cons show ?thesis by auto
  qed
qed

lemma match_conn_of_parts:
  "match_conn_of W ch pw s = Some (w, r) \<Longrightarrow> s = w @ r \<and> w \<in> set (connectors_of ch)"
proof -
  assume "match_conn_of W ch pw s = Some (w, r)"
  then have "match_alts_of W (connectors_of ch) s = Some (w, r)"
    by (cases "word_boundary_of W pw s") (simp_all add: match_conn_of_def)
  then show ?thesis
    by (rule match_alts_of_parts)
qed

lemma match_conn_of_length:
  "match_conn_of W ch pw s = Some (w, r) \<Longrightarrow> length r < length s"
  by (drule match_conn_of_parts) (auto simp: connectors_of_def connectors_def)

function sub_conn_of :: "('a \<Rightarrow> bool) \<Rightarrow> (char \<Rightarrow> 'a) \<Rightarrow> bool \<Rightarrow> 'a list \<Rightarrow> 'a list" where
  "sub_conn_of W ch pw [] = []"
| "sub_conn_of W ch pw (c # cs) =
     (case match_conn_of W ch pw (c # cs) of
        Some (w, rest) \<Rightarrow> sub_conn_of W ch (W (last w)) rest
      | None \<Rightarrow> c # sub_conn_of W ch (W c) cs)"
  by pat_completeness auto
termination
  by (relation "measure (\<lambda>(W, ch, pw, s). length s)") (auto dest: match_conn_of_length)

function collapse_ws_of :: "('a \<Rightarrow> bool) \<Rightarrow> 'a \<Rightarrow> 'a list \<Rightarrow> 'a list" where
  "collapse_ws_of S sp [] = []"
| "collapse_ws_of S sp (c # cs) =
     (if S c then sp # collapse_ws_of S sp (dropWhile S cs)
      else c # collapse_ws_of S sp cs)"
  by pat_completeness auto
termination
  by (relation "measure (\<lambda>(S, sp, s). length s)")
     (auto simp: length_dropWhile_le less_Suc_eq_le)

definition normalize_nome_of ::
  "('a \<Rightarrow> bool) \<Rightarrow> ('a \<Rightarrow> bool) \<Rightarrow> ('a list \<Rightarrow> 'a list) \<Rightarrow> (char \<Rightarrow> 'a) \<Rightarrow> 'a list \<Rightarrow> 'a list"
  where
  "normalize_nome_of S W lower ch nome =
     strip_of S (collapse_ws_of S (ch (CHR '' '')) (sub_conn_of W ch False (lower nome)))"

section \<open>Columns and SQL expressions\<close>

text \<open>
  A Spark column value is nullable: \<open>None\<close> is SQL \<^verbatim>\<open>NULL\<close>. An arithmetic or
  comparison operator gives \<^verbatim>\<open>NULL\<close> as soon as one operand is \<^verbatim>\<open>NULL\<close>; a division
  by zero gives \<^verbatim>\<open>NULL\<close>; \<^verbatim>\<open>&\<close> is the three-valued conjunction; a join condition
  and a \<^verbatim>\<open>when\<close> branch select a row only where the condition is true, not where it is
  \<^verbatim>\<open>NULL\<close>.

  The numeric columns of the script are floating-point numbers. A number is modelled by the
  rational it denotes, and the two formats by their rounding functions, which are
  parameters: \<open>r32\<close> rounds a rational to a \<^verbatim>\<open>float\<close> (the type of the column
  \<^verbatim>\<open>jaccard\<close> and of the cast \<^verbatim>\<open>lev_dist\<close>), \<open>r64\<close> to a \<^verbatim>\<open>double\<close> (the type of
  a Python \<^verbatim>\<open>float\<close>, of a decimal literal and of the arithmetic of Spark on these
  columns). Every operation returns the rounded exact result. Exact arithmetic is the
  instance where both functions are the identity.
\<close>

definition sql_op2 :: "('a \<Rightarrow> 'b \<Rightarrow> 'c) \<Rightarrow> 'a option \<Rightarrow> 'b option \<Rightarrow> 'c option" where
  "sql_op2 f x y =
     (case x of None \<Rightarrow> None | Some a \<Rightarrow> (case y of None \<Rightarrow> None | Some b \<Rightarrow> Some (f a b)))"

definition sql_div :: "(rat \<Rightarrow> rat) \<Rightarrow> rat option \<Rightarrow> rat option \<Rightarrow> rat option" where
  "sql_div r x y =
     (case x of
        None \<Rightarrow> None
      | Some a \<Rightarrow> (case y of None \<Rightarrow> None | Some b \<Rightarrow> if b = 0 then None else Some (r (a / b))))"

fun sql_and :: "bool option \<Rightarrow> bool option \<Rightarrow> bool option" where
  "sql_and (Some False) y = Some False"
| "sql_and x (Some False) = Some False"
| "sql_and (Some True) (Some True) = Some True"
| "sql_and x y = None"

definition sql_is_null :: "'a option \<Rightarrow> bool option" where
  "sql_is_null x = Some (x = None)"

text \<open>\<^verbatim>\<open>when(c1, v1).when(c2, v2) ... .otherwise(v)\<close>: the first true condition wins.\<close>

fun case_when :: "(bool option \<times> 'v) list \<Rightarrow> 'v \<Rightarrow> 'v" where
  "case_when [] other = other"
| "case_when ((c, v) # rest) other = (if c = Some True then v else case_when rest other)"

section \<open>Similarity scores\<close>

text \<open>
  The fingerprints are strings over any type of characters; \<open>S\<close> is the set of whitespace
  characters at which \<^verbatim>\<open>str.split()\<close> cuts.
\<close>

fun split_scan_of :: "('a \<Rightarrow> bool) \<Rightarrow> 'a list \<Rightarrow> 'a list \<Rightarrow> 'a list list" where
  "split_scan_of S cur [] = (if cur = [] then [] else [cur])"
| "split_scan_of S cur (c # cs) =
     (if S c
      then (if cur = [] then split_scan_of S [] cs else cur # split_scan_of S [] cs)
      else split_scan_of S (cur @ [c]) cs)"

definition split_of :: "('a \<Rightarrow> bool) \<Rightarrow> 'a list \<Rightarrow> 'a list list" where
  "split_of S s = split_scan_of S [] s"

text \<open>
  \<^verbatim>\<open>jaccard_udf\<close>: the sets of whitespace-delimited tokens of the two fingerprints,
  the size of the intersection over the size of the union, \<open>0\<close> when the union is empty.
  The quotient is a Python \<^verbatim>\<open>float\<close>; the UDF returns it as a \<^verbatim>\<open>FloatType\<close>.
\<close>

definition jaccard_udf ::
  "('a \<Rightarrow> bool) \<Rightarrow> (rat \<Rightarrow> rat) \<Rightarrow> (rat \<Rightarrow> rat) \<Rightarrow> 'a list \<Rightarrow> 'a list \<Rightarrow> rat" where
  "jaccard_udf S r32 r64 str1 str2 =
     (let set1 = set (split_of S str1);
          set2 = set (split_of S str2);
          n_inter = card (set1 \<inter> set2);
          n_union = card (set1 \<union> set2)
      in r32 (if n_union \<noteq> 0 then r64 (of_nat n_inter / of_nat n_union) else 0))"

text \<open>
  Spark's \<^verbatim>\<open>levenshtein\<close>: the unit-cost edit distance (insertion, deletion,
  substitution) between two strings; \<^verbatim>\<open>length\<close> is the number of characters.
\<close>

fun levenshtein :: "'a list \<Rightarrow> 'a list \<Rightarrow> nat" where
  "levenshtein [] ys = length ys"
| "levenshtein (x # xs) [] = length (x # xs)"
| "levenshtein (x # xs) (y # ys) =
     min (min (levenshtein xs (y # ys) + 1) (levenshtein (x # xs) ys + 1))
         (levenshtein xs ys + (if x = y then 0 else 1))"

text \<open>\<^verbatim>\<open>levenshtein(...).cast("float")\<close>.\<close>

definition lev_dist :: "(rat \<Rightarrow> rat) \<Rightarrow> 'a list \<Rightarrow> 'a list \<Rightarrow> rat option" where
  "lev_dist r32 a b = Some (r32 (of_nat (levenshtein a b)))"

definition len_max :: "'a list \<Rightarrow> 'a list \<Rightarrow> nat" where
  "len_max a b = (if length a > length b then length a else length b)"

text \<open>
  \<^verbatim>\<open>1 - (col("lev_dist") / col("len_max"))\<close>: the division and the subtraction are
  done on \<^verbatim>\<open>double\<close>s.
\<close>

definition lev_score :: "(rat \<Rightarrow> rat) \<Rightarrow> (rat \<Rightarrow> rat) \<Rightarrow> 'a list \<Rightarrow> 'a list \<Rightarrow> rat option" where
  "lev_score r32 r64 a b =
     sql_op2 (\<lambda>x y. r64 (x - y)) (Some 1)
       (sql_div r64 (lev_dist r32 a b) (Some (of_nat (len_max a b))))"

text \<open>\<^verbatim>\<open>0.75 * col("jaccard") + 0.25 * col("lev_score")\<close>.\<close>

definition score_final ::
  "('a \<Rightarrow> bool) \<Rightarrow> (rat \<Rightarrow> rat) \<Rightarrow> (rat \<Rightarrow> rat) \<Rightarrow> 'a list \<Rightarrow> 'a list \<Rightarrow> rat option" where
  "score_final S r32 r64 a b =
     sql_op2 (\<lambda>x y. r64 (x + y))
       (sql_op2 (\<lambda>x y. r64 (x * y)) (Some (r64 (3 / 4))) (Some (jaccard_udf S r32 r64 a b)))
       (sql_op2 (\<lambda>x y. r64 (x * y)) (Some (r64 (1 / 4))) (lev_score r32 r64 a b))"

section \<open>The pipeline over the record table\<close>

text \<open>
  A row of the input table \<^verbatim>\<open>df\<close>, with the columns the script reads. The type
  \<open>'i\<close> of the identifiers is any linear order, \<open>'c\<close> is the type of the characters
  of the strings and \<open>'d\<close> the type of the birth dates, of which only equality is used.
  The key \<^verbatim>\<open>cpf\<close> and the two names may be \<^verbatim>\<open>NULL\<close>; the fingerprint column
  \<^verbatim>\<open>assinatura\<close> is part of the table the join reads. A table is the list of its rows.
\<close>

record ('i, 'c, 'd) registro =
  id_col :: 'i
  cpf :: "'c list option"
  nome :: "'c list option"
  data_nasc :: 'd
  nome_mae :: "'c list option"
  sexo :: "'c list"
  assinatura :: "'c list"

text \<open>
  The self-join of lines 49 to 54: the pairs of rows on which
  \<^verbatim>\<open>(a.cpf == b.cpf) & (a.id < b.id) & (a.assinatura != b.assinatura)\<close> is true.
\<close>

definition join_cond ::
  "('i::linorder, 'c, 'd) registro \<Rightarrow> ('i, 'c, 'd) registro \<Rightarrow> bool option" where
  "join_cond a b =
     sql_and (sql_and (sql_op2 (=) (cpf a) (cpf b))
                      (sql_op2 (<) (Some (id_col a)) (Some (id_col b))))
             (sql_op2 (\<noteq>) (Some (assinatura a)) (Some (assinatura b)))"

definition df_joined ::
  "('i::linorder, 'c, 'd) registro list
   \<Rightarrow> (('i, 'c, 'd) registro \<times> ('i, 'c, 'd) registro) list" where
  "df_joined df = concat (map (\<lambda>a. map (Pair a) (filter (\<lambda>b. join_cond a b = Some True) df)) df)"

text \<open>
  The decision rules of lines 65 to 71, on a joined pair and its \<^verbatim>\<open>score_final\<close>.
  The two thresholds are the \<^verbatim>\<open>double\<close>s that the literals \<^verbatim>\<open>0.75\<close> and
  \<^verbatim>\<open>0.60\<close> denote.
\<close>

definition status_final ::
  "(rat \<Rightarrow> rat) \<Rightarrow> ('i, 'c, 'd) registro \<Rightarrow> ('i, 'c, 'd) registro \<Rightarrow> rat option \<Rightarrow> string"
  where
  "status_final r64 a b sc =
     case_when
       [(sql_is_null (cpf a), ''Q001''),
        (sql_op2 (\<ge>) sc (Some (r64 (3 / 4))), ''OK''),
        (sql_op2 (<) sc (Some (r64 (3 / 5))), ''Q002''),
        (sql_and (sql_op2 (\<noteq>) (Some (data_nasc a)) (Some (data_nasc b)))
                 (sql_op2 (\<noteq>) (Some (sexo a)) (Some (sexo b))), ''Q006'')]
       ''VALIDAR_NOMES''"

text \<open>The selected columns of lines 74 to 77.\<close>

record ('i, 'c) resultado =
  id_a :: 'i
  id_b :: 'i
  cpf_res :: "'c list option"
  score_final_res :: "rat option"
  status_final_res :: string

definition resultado_row ::
  "('c \<Rightarrow> bool) \<Rightarrow> (rat \<Rightarrow> rat) \<Rightarrow> (rat \<Rightarrow> rat)
   \<Rightarrow> ('i, 'c, 'd) registro \<times> ('i, 'c, 'd) registro \<Rightarrow> ('i, 'c) resultado" where
  "resultado_row S r32 r64 p =
     (let a = fst p; b = snd p; sc = score_final S r32 r64 (assinatura a) (assinatura b)
      in \<lparr> id_a = id_col a, id_b = id_col b, cpf_res = cpf a,
           score_final_res = sc, status_final_res = status_final r64 a b sc \<rparr>)"

definition df_resultado ::
  "('c \<Rightarrow> bool) \<Rightarrow> (rat \<Rightarrow> rat) \<Rightarrow> (rat \<Rightarrow> rat)
   \<Rightarrow> ('i::linorder, 'c, 'd) registro list \<Rightarrow> ('i, 'c) resultado list" where
  "df_resultado S r32 r64 df = map (resultado_row S r32 r64) (df_joined df)"

text \<open>The two filters of lines 80 and 81.\<close>

definition startswith :: "string \<Rightarrow> string \<Rightarrow> bool" where
  "startswith s p = (take (length p) s = p)"

definition df_ingestao :: "('i, 'c) resultado list \<Rightarrow> ('i, 'c) resultado list" where
  "df_ingestao res = filter (\<lambda>r. status_final_res r = ''OK'') res"

definition df_log :: "('i, 'c) resultado list \<Rightarrow> ('i, 'c) resultado list" where
  "df_log res = filter (\<lambda>r. startswith (status_final_res r) ''Q'') res"

text \<open>
  Lines 84 to 86. \<^verbatim>\<open>cpfs_duplicados\<close> is the distinct \<^verbatim>\<open>cpf\<close> column of the result;
  the left anti join keeps the rows of \<^verbatim>\<open>df\<close> whose \<^verbatim>\<open>cpf\<close> equals none of them (a
  \<^verbatim>\<open>NULL\<close> key equals nothing). \<^verbatim>\<open>unionByName\<close> resolves the columns of the second
  table by the names of the first and raises \<^verbatim>\<open>AnalysisException\<close> unless both tables
  have the same column names, compared without regard to case as Spark does by default;
  the rows of a union are tagged by the table they come from.
  The result table has the five columns selected at lines 74 to 77, the anti join has the
  columns of \<^verbatim>\<open>df\<close>, which are a parameter here.
\<close>

datatype spark_error = AnalysisException

definition cpfs_duplicados :: "('i, 'c) resultado list \<Rightarrow> 'c list option list" where
  "cpfs_duplicados res = remdups (map cpf_res res)"

definition df_unicos ::
  "('i, 'c, 'd) registro list \<Rightarrow> ('i, 'c) resultado list \<Rightarrow> ('i, 'c, 'd) registro list" where
  "df_unicos df res =
     filter (\<lambda>r. \<not> list_ex (\<lambda>k. sql_op2 (=) (cpf r) k = Some True) (cpfs_duplicados res)) df"

definition resultado_columns :: "string list" where
  "resultado_columns = [''id_a'', ''id_b'', ''cpf'', ''score_final'', ''status_final'']"

definition unionByName ::
  "string list \<Rightarrow> 'a list \<Rightarrow> string list \<Rightarrow> 'b list \<Rightarrow> spark_error + ('a + 'b) list" where
  "unionByName cols1 rows1 cols2 rows2 =
     (let names1 = map lower_py cols1; names2 = map lower_py cols2
      in if length names1 = length names2 \<and> distinct names1 \<and> distinct names2
            \<and> set names1 = set names2
         then Inr (map Inl rows1 @ map Inr rows2)
         else Inl AnalysisException)"

definition df_ingestao_final ::
  "('c \<Rightarrow> bool) \<Rightarrow> (rat \<Rightarrow> rat) \<Rightarrow> (rat \<Rightarrow> rat) \<Rightarrow> string list
   \<Rightarrow> ('i::linorder, 'c, 'd) registro list
   \<Rightarrow> spark_error + (('i, 'c) resultado + ('i, 'c, 'd) registro) list" where
  "df_ingestao_final S r32 r64 df_columns df =
     (let res = df_resultado S r32 r64 df
      in unionByName resultado_columns (df_ingestao res) df_columns (df_unicos df res))"

section \<open>An example table\<close>

text \<open>
  Ten records: four groups of two records sharing a key, whose fingerprints differ, one
  record without key and one record whose key no other record has. The identifiers are
  integers, the strings are over the code points below 256 and the arithmetic is exact.
\<close>

definition mk_registro ::
  "int \<Rightarrow> string option \<Rightarrow> string \<Rightarrow> string \<Rightarrow> string \<Rightarrow> (int, char, string) registro" where
  "mk_registro i k d s f =
     \<lparr> id_col = i, cpf = k, nome = None, data_nasc = d, nome_mae = None, sexo = s,
       assinatura = f \<rparr>"

definition df_exemplo :: "(int, char, string) registro list" where
  "df_exemplo =
     [mk_registro 1 (Some ''111'') ''d1'' ''F'' ''a b'',
      mk_registro 2 (Some ''111'') ''d1'' ''F'' ''a b c'',
      mk_registro 3 (Some ''222'') ''d1'' ''F'' ''a b'',
      mk_registro 4 (Some ''222'') ''d1'' ''F'' ''b a'',
      mk_registro 5 (Some ''333'') ''d1'' ''F'' ''a b'',
      mk_registro 6 (Some ''333'') ''d2'' ''M'' ''a b c'',
      mk_registro 7 (Some ''444'') ''d1'' ''F'' ''a b'',
      mk_registro 8 (Some ''444'') ''d1'' ''F'' ''a bb'',
      mk_registro 9 None ''d1'' ''F'' ''x y'',
      mk_registro 10 (Some ''555'') ''d1'' ''F'' ''x y'']"

definition df_columns_exemplo :: "string list" where
  "df_columns_exemplo =
     [''id'', ''cpf'', ''nome'', ''data_nasc'', ''nome_mae'', ''sexo'', ''assinatura'']"

definition exact :: "rat \<Rightarrow> rat" where
  "exact x = x"

section \<open>Predicates on strings\<close>

text \<open>
  Three predicates for the analysis of the normalizer: \<open>sep_head W r\<close> says that \<open>r\<close> is
  empty or starts with a character that is not a word character; \<open>no_conn W ch s\<close> that
  no maximal run of word characters of \<open>s\<close> is one of the connector words; \<open>spaced S sp s\<close>
  that every whitespace character of \<open>s\<close> is the space \<open>sp\<close> and is not followed by
  whitespace.
\<close>

definition sep_head :: "('a \<Rightarrow> bool) \<Rightarrow> 'a list \<Rightarrow> bool" where
  "sep_head W r = (case r of [] \<Rightarrow> True | c # _ \<Rightarrow> \<not> W c)"

function no_conn :: "('a \<Rightarrow> bool) \<Rightarrow> (char \<Rightarrow> 'a) \<Rightarrow> 'a list \<Rightarrow> bool" where
  "no_conn W ch [] = True"
| "no_conn W ch (c # cs) =
     (if W c
      then c # takeWhile W cs \<notin> set (connectors_of ch) \<and> no_conn W ch (dropWhile W cs)
      else no_conn W ch cs)"
  by pat_completeness auto
termination
  by (relation "measure (\<lambda>(W, ch, s). length s)")
     (auto simp: length_dropWhile_le less_Suc_eq_le)

fun spaced :: "('a \<Rightarrow> bool) \<Rightarrow> 'a \<Rightarrow> 'a list \<Rightarrow> bool" where
  "spaced S sp [] = True"
| "spaced S sp (c # cs) =
     (if S c
      then c = sp \<and> (case cs of [] \<Rightarrow> True | d # _ \<Rightarrow> \<not> S d) \<and> spaced S sp cs
      else spaced S sp cs)"

subsection \<open>Fingerprints of concrete records\<close>

text \<open>
  C1. The claim: fingerprint construction is total and never fails, also when the name
  or the mother's name is absent or normalizes to the empty string. On the code an absent
  name becomes the empty string, which has no token, and reading \<^verbatim>\<open>partes[0]\<close>
  raises \<^verbatim>\<open>IndexError\<close>: no fingerprint is returned. The same happens for a name
  made of connector words only.
\<close>

theorem gerar_assinatura_absent_name_raises:
  "gerar_assinatura None ''2000-01-01'' (Some ''Ana da Silva'') ''F'' = Inl IndexError
   \<and> gerar_assinatura (Some []) ''2000-01-01'' (Some ''Ana da Silva'') ''F'' = Inl IndexError
   \<and> gerar_assinatura (Some ''Maria Souza'') ''2000-01-01'' (Some ''Da'') ''F'' = Inl IndexError"
  by code_simp

text \<open>
  C2. The claim: for a name of exactly one token, \<^verbatim>\<open>extract_first_last\<close> returns that
  token as the first and as the last token, and the fingerprint is the six fields joined
  by single spaces. On the code the second item returned for the one-token name
  \<^verbatim>\<open>maria\<close> is the tuple \<^verbatim>\<open>('maria', 'maria')\<close>, and the fingerprint holds the
  text of that tuple where the last token should be.
\<close>

theorem gerar_assinatura_single_token_tuple:
  "extract_first_last ''maria'' = Inr (PStr ''maria'', PTuple2 ''maria'' ''maria'')
   \<and> gerar_assinatura (Some ''Maria'') ''2000-01-01'' (Some ''Ana da Silva'') ''F''
       = Inr ''maria ('maria', 'maria') 2000-01-01 ana silva F''"
  by code_simp

section \<open>The scores\<close>

















section \<open>The pipeline\<close>

subsection \<open>The pairs of the join\<close>

lemma sql_and_True: "(sql_and x y = Some True) = (x = Some True \<and> y = Some True)"
  by (induction x y rule: sql_and.induct) simp_all

lemma sql_op2_True:
  "(sql_op2 f x y = Some True) = (\<exists>a b. x = Some a \<and> y = Some b \<and> f a b)"
  by (simp add: sql_op2_def split: option.splits)

lemma join_cond_True:
  "(join_cond a b = Some True)
   = (cpf a \<noteq> None \<and> cpf a = cpf b \<and> id_col a < id_col b \<and> assinatura a \<noteq> assinatura b)"
  by (auto simp: join_cond_def sql_and_True sql_op2_True)

lemma df_joined_iff:
  "((a, b) \<in> set (df_joined df))
   = (a \<in> set df \<and> b \<in> set df \<and> join_cond a b = Some True)"
  by (auto simp: df_joined_def)

lemma df_joined_keys:
  "p \<in> set (df_joined df) \<Longrightarrow> cpf (fst p) \<noteq> None \<and> cpf (snd p) \<noteq> None"
  using df_joined_iff [of "fst p" "snd p" df] by (auto simp: join_cond_True)

text \<open>
  C6. The pair generator emits exactly the pairs \<open>(a, b)\<close> of records of the table that
  have the same non-null key, \<^verbatim>\<open>a.id < b.id\<close> and different fingerprints: no pair with
  \<^verbatim>\<open>a.id >= b.id\<close>, with different keys or with equal fingerprints is emitted, and
  every pair with the three properties is.
\<close>

theorem df_joined_pairs:
  "((a, b) \<in> set (df_joined df))
   = (a \<in> set df \<and> b \<in> set df \<and> cpf a \<noteq> None \<and> cpf a = cpf b
      \<and> id_col a < id_col b \<and> assinatura a \<noteq> assinatura b)"
  by (simp only: df_joined_iff join_cond_True)

theorem df_joined_pairs_witness:
  "map (\<lambda>p. (id_col (fst p), id_col (snd p))) (df_joined df_exemplo)
     = [(1, 2), (3, 4), (5, 6), (7, 8)]
   \<and> (mk_registro 1 (Some ''111'') ''d1'' ''F'' ''a b'',
       mk_registro 2 (Some ''111'') ''d1'' ''F'' ''a b c'') \<in> set (df_joined df_exemplo)
   \<and> (mk_registro 2 (Some ''111'') ''d1'' ''F'' ''a b c'',
       mk_registro 1 (Some ''111'') ''d1'' ''F'' ''a b'') \<notin> set (df_joined df_exemplo)"
proof -
  have "map (\<lambda>p. (id_col (fst p), id_col (snd p))) (df_joined df_exemplo)
     = [(1, 2), (3, 4), (5, 6), (7, 8)]"
    by code_simp
  moreover have "(mk_registro 1 (Some ''111'') ''d1'' ''F'' ''a b'',
       mk_registro 2 (Some ''111'') ''d1'' ''F'' ''a b c'') \<in> set (df_joined df_exemplo)"
    unfolding df_joined_pairs by (simp add: df_exemplo_def mk_registro_def)
  moreover have "(mk_registro 2 (Some ''111'') ''d1'' ''F'' ''a b c'',
       mk_registro 1 (Some ''111'') ''d1'' ''F'' ''a b'') \<notin> set (df_joined df_exemplo)"
    unfolding df_joined_pairs by (simp add: df_exemplo_def mk_registro_def)
  ultimately show ?thesis by blast
qed

subsection \<open>The decision rules\<close>

lemma status_final_Some:
  "status_final r64 a b (Some s)
   = (if cpf a = None then ''Q001''
      else if r64 (3 / 4) \<le> s then ''OK''
      else if s < r64 (3 / 5) then ''Q002''
      else if data_nasc a \<noteq> data_nasc b \<and> sexo a \<noteq> sexo b then ''Q006''
      else ''VALIDAR_NOMES'')"
  by (simp add: status_final_def sql_is_null_def sql_op2_def sql_and_True)

lemma status_final_None:
  "status_final r64 a b None
   = (if cpf a = None then ''Q001''
      else if data_nasc a \<noteq> data_nasc b \<and> sexo a \<noteq> sexo b then ''Q006''
      else ''VALIDAR_NOMES'')"
  by (simp add: status_final_def sql_is_null_def sql_op2_def sql_and_True)

lemma status_final_five:
  "status_final r64 a b sc \<in> {''Q001'', ''OK'', ''Q002'', ''Q006'', ''VALIDAR_NOMES''}"
  by (cases sc) (simp_all only: status_final_Some status_final_None, auto)

lemma status_final_Q001: "(status_final r64 a b sc = ''Q001'') = (cpf a = None)"
  by (cases sc) (simp_all only: status_final_Some status_final_None, auto)

text \<open>
  C4. The classifier is a total, priority-ordered rule table: a missing key of the first
  record gives \<^verbatim>\<open>Q001\<close> whatever the score; else a score of at least 0.75 gives
  \<^verbatim>\<open>OK\<close>; else a score below 0.60 gives \<^verbatim>\<open>Q002\<close>; else different birth dates and
  different sexes give \<^verbatim>\<open>Q006\<close>; otherwise the status is \<^verbatim>\<open>VALIDAR_NOMES\<close>. Every
  pair, also one whose score is \<^verbatim>\<open>NULL\<close>, gets exactly one of the five statuses. The
  thresholds are the \<^verbatim>\<open>double\<close>s the two literals denote.
\<close>

theorem status_final_rule_table:
  "status_final r64 a b (Some s)
     = (if cpf a = None then ''Q001''
        else if r64 (3 / 4) \<le> s then ''OK''
        else if s < r64 (3 / 5) then ''Q002''
        else if data_nasc a \<noteq> data_nasc b \<and> sexo a \<noteq> sexo b then ''Q006''
        else ''VALIDAR_NOMES'')
   \<and> status_final r64 a b sc \<in> {''Q001'', ''OK'', ''Q002'', ''Q006'', ''VALIDAR_NOMES''}"
  by (simp only: status_final_Some status_final_five simp_thms)

theorem status_final_rule_table_witness:
  "status_final exact (mk_registro 9 None ''d1'' ''F'' ''x y'')
                (mk_registro 10 (Some ''555'') ''d1'' ''F'' ''x y'') (Some (9 / 10)) = ''Q001''
   \<and> status_final exact (mk_registro 1 (Some ''111'') ''d1'' ''F'' ''a b'')
                (mk_registro 2 (Some ''111'') ''d1'' ''F'' ''a b c'') (Some (33 / 40)) = ''OK''
   \<and> status_final exact (mk_registro 1 (Some ''111'') ''d1'' ''F'' ''a b'')
                (mk_registro 2 (Some ''111'') ''d1'' ''F'' ''a b c'') (Some (1 / 2)) = ''Q002''
   \<and> status_final exact (mk_registro 5 (Some ''333'') ''d1'' ''F'' ''a b'')
                (mk_registro 6 (Some ''333'') ''d2'' ''M'' ''a b c'') (Some (13 / 20)) = ''Q006''
   \<and> status_final exact (mk_registro 1 (Some ''111'') ''d1'' ''F'' ''a b'')
                (mk_registro 2 (Some ''111'') ''d1'' ''F'' ''a b c'') (Some (13 / 20))
       = ''VALIDAR_NOMES''"
  using status_final_rule_table [of exact "mk_registro 9 None ''d1'' ''F'' ''x y''"
          "mk_registro 10 (Some ''555'') ''d1'' ''F'' ''x y''" "9 / 10" None]
        status_final_rule_table [of exact "mk_registro 1 (Some ''111'') ''d1'' ''F'' ''a b''"
          "mk_registro 2 (Some ''111'') ''d1'' ''F'' ''a b c''" "33 / 40" None]
        status_final_rule_table [of exact "mk_registro 1 (Some ''111'') ''d1'' ''F'' ''a b''"
          "mk_registro 2 (Some ''111'') ''d1'' ''F'' ''a b c''" "1 / 2" None]
        status_final_rule_table [of exact "mk_registro 5 (Some ''333'') ''d1'' ''F'' ''a b''"
          "mk_registro 6 (Some ''333'') ''d2'' ''M'' ''a b c''" "13 / 20" None]
        status_final_rule_table [of exact "mk_registro 1 (Some ''111'') ''d1'' ''F'' ''a b''"
          "mk_registro 2 (Some ''111'') ''d1'' ''F'' ''a b c''" "13 / 20" None]
  by (simp add: mk_registro_def exact_def)

section \<open>The normalizer is idempotent\<close>

subsection \<open>The connector substitution along word runs\<close>

declare sub_conn_of.simps(2) [simp del]

lemma connectors_of_word:
  assumes "\<forall>k\<in>set connectors. \<forall>c\<in>set k. W (ch c)"
  shows "w \<in> set (connectors_of ch) \<Longrightarrow> w \<noteq> [] \<and> (\<forall>x\<in>set w. W x)"
proof -
  assume "w \<in> set (connectors_of ch)"
  then obtain k where k: "k \<in> set connectors" "w = map ch k"
    by (auto simp: connectors_of_def)
  from k(1) have "k \<noteq> []" by (auto simp: connectors_def)
  with k assms show ?thesis by auto
qed

lemma match_alts_of_head:
  assumes "match_alts_of W ks (c # cs) = Some p"
    and "\<forall>k\<in>set ks. k \<noteq> [] \<and> (\<forall>x\<in>set k. W x)"
  shows "W c"
proof -
  obtain w r where p: "p = (w, r)" by (cases p)
  with assms(1) have "c # cs = w @ r" "w \<in> set ks"
    by (auto dest: match_alts_of_parts)
  with assms(2) show ?thesis by (cases w) auto
qed

lemma sub_conn_of_nonword:
  assumes cw: "\<forall>k\<in>set connectors. \<forall>c\<in>set k. W (ch c)"
    and c: "\<not> W c"
  shows "sub_conn_of W ch pw (c # cs) = c # sub_conn_of W ch False cs"
proof -
  have "\<forall>k\<in>set (connectors_of ch). k \<noteq> [] \<and> (\<forall>x\<in>set k. W x)"
    using connectors_of_word [of W ch, OF cw] by blast
  with c have "match_alts_of W (connectors_of ch) (c # cs) = None"
    using match_alts_of_head [of W "connectors_of ch" c cs]
    by (cases "match_alts_of W (connectors_of ch) (c # cs)") auto
  then have "match_conn_of W ch pw (c # cs) = None"
    by (simp add: match_conn_of_def)
  with c show ?thesis by (simp add: sub_conn_of.simps(2))
qed

lemma sub_conn_of_True_word:
  assumes "W c"
  shows "sub_conn_of W ch True (c # cs) = c # sub_conn_of W ch True cs"
proof -
  have "match_conn_of W ch True (c # cs) = None"
    using assms by (simp add: match_conn_of_def word_boundary_of_def)
  with assms show ?thesis by (simp add: sub_conn_of.simps(2))
qed

lemma sub_conn_of_True_run:
  "\<forall>x\<in>set w. W x \<Longrightarrow> sub_conn_of W ch True (w @ r) = w @ sub_conn_of W ch True r"
  by (induction w) (simp_all add: sub_conn_of_True_word)

lemma sub_conn_of_sep_head:
  assumes "\<forall>k\<in>set connectors. \<forall>c\<in>set k. W (ch c)"
    and "sep_head W r"
  shows "sub_conn_of W ch pw r = sub_conn_of W ch False r"
proof (cases r)
  case Nil
  then show ?thesis by simp
next
  case (Cons c cs)
  with assms(2) have c: "\<not> W c" by (simp add: sep_head_def)
  have "sub_conn_of W ch pw (c # cs) = c # sub_conn_of W ch False cs"
    using assms(1) c by (rule sub_conn_of_nonword)
  moreover have "sub_conn_of W ch False (c # cs) = c # sub_conn_of W ch False cs"
    using assms(1) c by (rule sub_conn_of_nonword)
  ultimately show ?thesis
    using Cons by simp
qed

lemma sep_head_sub_conn_of:
  assumes "\<forall>k\<in>set connectors. \<forall>c\<in>set k. W (ch c)"
    and "sep_head W r"
  shows "sep_head W (sub_conn_of W ch pw r)"
proof (cases r)
  case Nil
  then show ?thesis by (simp add: sep_head_def)
next
  case (Cons c cs)
  with assms(2) have c: "\<not> W c" by (simp add: sep_head_def)
  then have "sub_conn_of W ch pw (c # cs) = c # sub_conn_of W ch False cs"
    by (rule sub_conn_of_nonword [of W ch, OF assms(1)])
  with Cons c show ?thesis by (simp add: sep_head_def)
qed

lemma sep_head_dropWhile: "sep_head W (dropWhile W s)"
  by (induction s) (simp_all add: sep_head_def)

lemma alt_at_run:
  assumes k: "k \<noteq> []" "\<forall>x\<in>set k. W x"
    and w: "\<forall>x\<in>set w. W x"
    and r: "sep_head W r"
  shows "(take (length k) (w @ r) = k
          \<and> word_boundary_of W (W (last k)) (drop (length k) (w @ r))) = (k = w)"
proof
  assume "k = w"
  with k r show "take (length k) (w @ r) = k
      \<and> word_boundary_of W (W (last k)) (drop (length k) (w @ r))"
    by (cases r) (simp_all add: word_boundary_of_def sep_head_def)
next
  assume a: "take (length k) (w @ r) = k
      \<and> word_boundary_of W (W (last k)) (drop (length k) (w @ r))"
  from k have lk: "W (last k)" by simp
  with a have b: "sep_head W (drop (length k) (w @ r))"
    by (simp add: word_boundary_of_def sep_head_def split: list.splits)
  consider "length k < length w" | "length w < length k" | "length k = length w"
    by linarith
  then show "k = w"
  proof cases
    case 1
    then obtain x xs where d: "drop (length k) w = x # xs"
      by (cases "drop (length k) w") auto
    then have "x \<in> set w"
      by (metis in_set_dropD list.set_intros(1))
    with w have "W x" by simp
    with b d 1 show ?thesis by (simp add: sep_head_def)
  next
    case 2
    with a have e: "k = w @ take (length k - length w) r" by simp
    with 2 have "take (length k - length w) r \<noteq> []" by auto
    then obtain x r' where r': "r = x # r'" by (cases r) auto
    with 2 have "take (length k - length w) r = x # take (length k - length w - 1) r'"
      by (cases "length k - length w") auto
    with e have "x \<in> set k" by (metis in_set_conv_decomp)
    with k have "W x" by simp
    with r r' show ?thesis by (simp add: sep_head_def)
  next
    case 3
    with a show ?thesis by simp
  qed
qed

lemma match_alts_of_run:
  assumes ks: "\<forall>k\<in>set ks. k \<noteq> [] \<and> (\<forall>x\<in>set k. W x)"
    and w: "\<forall>x\<in>set w. W x"
    and r: "sep_head W r"
  shows "match_alts_of W ks (w @ r) = (if w \<in> set ks then Some (w, r) else None)"
  using ks
proof (induction ks)
  case Nil
  then show ?case by simp
next
  case (Cons k ks)
  then have "(take (length k) (w @ r) = k
      \<and> word_boundary_of W (W (last k)) (drop (length k) (w @ r))) = (k = w)"
    using alt_at_run [OF _ _ w r, of k] by simp
  with Cons show ?case by auto
qed

lemma match_conn_of_run:
  assumes cw: "\<forall>k\<in>set connectors. \<forall>c\<in>set k. W (ch c)"
    and w: "w \<noteq> []" "\<forall>x\<in>set w. W x" and r: "sep_head W r"
  shows "match_conn_of W ch False (w @ r)
         = (if w \<in> set (connectors_of ch) then Some (w, r) else None)"
proof -
  from w have "word_boundary_of W False (w @ r)"
    by (cases w) (simp_all add: word_boundary_of_def)
  moreover have "\<forall>k\<in>set (connectors_of ch). k \<noteq> [] \<and> (\<forall>x\<in>set k. W x)"
    using connectors_of_word [of W ch, OF cw] by blast
  ultimately show ?thesis
    using match_alts_of_run [OF _ w(2) r, of "connectors_of ch"]
    by (simp add: match_conn_of_def)
qed

lemma sub_conn_of_run:
  assumes cw: "\<forall>k\<in>set connectors. \<forall>c\<in>set k. W (ch c)"
    and w: "w \<noteq> []" "\<forall>x\<in>set w. W x" and r: "sep_head W r"
  shows "sub_conn_of W ch False (w @ r)
         = (if w \<in> set (connectors_of ch) then sub_conn_of W ch False r
            else w @ sub_conn_of W ch False r)"
proof -
  from w obtain c cs where wc: "w = c # cs" by (cases w) auto
  have m: "match_conn_of W ch False (w @ r)
         = (if w \<in> set (connectors_of ch) then Some (w, r) else None)"
    using cw w r by (rule match_conn_of_run)
  show ?thesis
  proof (cases "w \<in> set (connectors_of ch)")
    case True
    then have "match_conn_of W ch False (c # cs @ r) = Some (w, r)"
      using m wc by simp
    then have "sub_conn_of W ch False (c # cs @ r) = sub_conn_of W ch (W (last w)) r"
      by (simp add: sub_conn_of.simps(2))
    also have "\<dots> = sub_conn_of W ch False r"
      using cw r by (rule sub_conn_of_sep_head)
    finally show ?thesis
      using True wc by simp
  next
    case False
    then have "match_conn_of W ch False (c # cs @ r) = None"
      using m wc by simp
    then have "sub_conn_of W ch False (c # cs @ r) = c # sub_conn_of W ch (W c) (cs @ r)"
      by (simp add: sub_conn_of.simps(2))
    moreover from w wc have "W c" "\<forall>x\<in>set cs. W x" by simp_all
    ultimately have "sub_conn_of W ch False (c # cs @ r) = c # cs @ sub_conn_of W ch True r"
      by (simp add: sub_conn_of_True_run)
    moreover have "sub_conn_of W ch True r = sub_conn_of W ch False r"
      using cw r by (rule sub_conn_of_sep_head)
    ultimately show ?thesis
      using False wc by simp
  qed
qed

subsection \<open>Strings without connector words\<close>

lemma sep_head_takeWhile: "sep_head W t \<Longrightarrow> takeWhile W t = []"
  by (cases t) (simp_all add: sep_head_def)

lemma sep_head_dropWhile_id: "sep_head W t \<Longrightarrow> dropWhile W t = t"
  by (cases t) (simp_all add: sep_head_def)

lemma no_conn_run:
  assumes w: "w \<noteq> []" "\<forall>x\<in>set w. W x" and t: "sep_head W t"
  shows "no_conn W ch (w @ t) = (w \<notin> set (connectors_of ch) \<and> no_conn W ch t)"
proof -
  from w obtain c cs where wc: "w = c # cs" by (cases w) auto
  with w have c: "W c" and cs: "\<forall>x\<in>set cs. W x" by simp_all
  from cs t have "takeWhile W (cs @ t) = cs"
    by (simp add: takeWhile_append2 sep_head_takeWhile)
  moreover from cs t have "dropWhile W (cs @ t) = t"
    by (simp add: dropWhile_append2 sep_head_dropWhile_id)
  ultimately show ?thesis
    using c wc by simp
qed

lemma no_conn_sub_conn_of:
  assumes cw: "\<forall>k\<in>set connectors. \<forall>c\<in>set k. W (ch c)"
  shows "no_conn W ch (sub_conn_of W ch False s)"
  using cw
proof (induction W ch s rule: no_conn.induct)
  case (1 W ch)
  show ?case by simp
next
  case (2 W ch c cs)
  have cw: "\<forall>k\<in>set connectors. \<forall>c\<in>set k. W (ch c)"
    using "2.prems" .
  show ?case
  proof (cases "W c")
    case True
    let ?w = "c # takeWhile W cs" and ?r = "dropWhile W cs"
    have w: "?w \<noteq> []" "\<forall>x\<in>set ?w. W x"
      using True by (auto dest: set_takeWhileD)
    have r: "sep_head W ?r" by (rule sep_head_dropWhile)
    have "sub_conn_of W ch False (?w @ ?r)
          = (if ?w \<in> set (connectors_of ch) then sub_conn_of W ch False ?r
             else ?w @ sub_conn_of W ch False ?r)"
      using cw w r by (rule sub_conn_of_run)
    moreover have "no_conn W ch (sub_conn_of W ch False ?r)"
      using "2.IH"(1) [OF True] cw by blast
    moreover have "no_conn W ch (?w @ sub_conn_of W ch False ?r)
          = (?w \<notin> set (connectors_of ch) \<and> no_conn W ch (sub_conn_of W ch False ?r))"
      using w sep_head_sub_conn_of [of W ch, OF cw r] by (rule no_conn_run)
    ultimately show ?thesis by simp
  next
    case False
    have "no_conn W ch (sub_conn_of W ch False cs)"
      using "2.IH"(2) [OF False] cw by blast
    with False show ?thesis
      by (simp add: sub_conn_of_nonword [of W ch, OF cw])
  qed
qed

lemma sub_conn_of_no_conn:
  assumes cw: "\<forall>k\<in>set connectors. \<forall>c\<in>set k. W (ch c)"
  shows "no_conn W ch s \<Longrightarrow> sub_conn_of W ch False s = s"
  using cw
proof (induction W ch s rule: no_conn.induct)
  case (1 W ch)
  show ?case by simp
next
  case (2 W ch c cs)
  have cw: "\<forall>k\<in>set connectors. \<forall>c\<in>set k. W (ch c)"
    using "2.prems"(2) .
  show ?case
  proof (cases "W c")
    case True
    let ?w = "c # takeWhile W cs" and ?r = "dropWhile W cs"
    have w: "?w \<noteq> []" "\<forall>x\<in>set ?w. W x"
      using True by (auto dest: set_takeWhileD)
    have r: "sep_head W ?r" by (rule sep_head_dropWhile)
    have "sub_conn_of W ch False (?w @ ?r)
          = (if ?w \<in> set (connectors_of ch) then sub_conn_of W ch False ?r
             else ?w @ sub_conn_of W ch False ?r)"
      using cw w r by (rule sub_conn_of_run)
    moreover from "2.prems"(1) True
    have nc: "?w \<notin> set (connectors_of ch)" "no_conn W ch ?r" by simp_all
    moreover have "sub_conn_of W ch False ?r = ?r"
      using "2.IH"(1) [OF True nc(2)] cw by blast
    ultimately show ?thesis by simp
  next
    case False
    with "2.prems"(1) have "no_conn W ch cs" by simp
    then have "sub_conn_of W ch False cs = cs"
      using "2.IH"(2) [OF False] cw by blast
    with False show ?thesis
      by (simp add: sub_conn_of_nonword [of W ch, OF cw])
  qed
qed

lemma no_conn_nonword: "\<forall>x\<in>set t. \<not> W x \<Longrightarrow> no_conn W ch t"
  by (induction t) simp_all

lemma no_conn_dropWhile:
  "no_conn W ch s \<Longrightarrow> \<forall>x. P x \<longrightarrow> \<not> W x \<Longrightarrow> no_conn W ch (dropWhile P s)"
  by (induction s) (auto split: if_splits)

lemma no_conn_append_nonword:
  "\<forall>x\<in>set t. \<not> W x \<Longrightarrow> no_conn W ch (s @ t) = no_conn W ch s"
proof (induction W ch s rule: no_conn.induct)
  case (1 W ch)
  then show ?case by (simp add: no_conn_nonword)
next
  case (2 W ch c cs)
  then have t: "sep_head W t" by (cases t) (simp_all add: sep_head_def)
  show ?case
  proof (cases "W c")
    case True
    have "takeWhile W (cs @ t) = takeWhile W cs"
      using "2.prems" by (induction cs) (simp_all add: sep_head_takeWhile [OF t])
    moreover have "dropWhile W (cs @ t) = dropWhile W cs @ t"
      using "2.prems" by (induction cs) (simp_all add: sep_head_dropWhile_id [OF t])
    ultimately show ?thesis using 2 True by simp
  next
    case False
    with 2 show ?thesis by simp
  qed
qed

subsection \<open>Whitespace\<close>

lemma collapse_ws_of_run:
  assumes "\<forall>c. S c \<longrightarrow> \<not> W c"
  shows "\<forall>x\<in>set w. W x \<Longrightarrow> collapse_ws_of S sp (w @ r) = w @ collapse_ws_of S sp r"
  using assms by (induction w) auto

lemma sep_head_collapse_ws_of:
  assumes "\<forall>c. S c \<longrightarrow> \<not> W c" and "S sp"
  shows "sep_head W r \<Longrightarrow> sep_head W (collapse_ws_of S sp r)"
  using assms by (cases r) (simp_all add: sep_head_def)

lemma no_conn_collapse_ws_of:
  assumes sw: "\<forall>c. S c \<longrightarrow> \<not> W c" and sp: "S sp"
  shows "no_conn W ch s \<Longrightarrow> no_conn W ch (collapse_ws_of S sp s)"
proof (induction "length s" arbitrary: s rule: less_induct)
  case less
  from sw sp have nsp: "\<not> W sp" by simp
  show ?case
  proof (cases s)
    case Nil
    then show ?thesis by simp
  next
    case (Cons c cs)
    show ?thesis
    proof (cases "W c")
      case True
      let ?w = "c # takeWhile W cs" and ?r = "dropWhile W cs"
      have w: "?w \<noteq> []" "\<forall>x\<in>set ?w. W x"
        using True by (auto dest: set_takeWhileD)
      have r: "sep_head W ?r" by (rule sep_head_dropWhile)
      have s: "s = ?w @ ?r" using Cons by simp
      from less.prems Cons True
      have "?w \<notin> set (connectors_of ch)" "no_conn W ch ?r" by simp_all
      moreover have "length ?r < length s"
        using Cons by (simp add: length_dropWhile_le less_Suc_eq_le)
      ultimately have "no_conn W ch (?w @ collapse_ws_of S sp ?r)"
        using less.hyps [of ?r]
          no_conn_run [OF w sep_head_collapse_ws_of [OF sw sp r], of ch]
        by simp
      moreover have "collapse_ws_of S sp (?w @ ?r) = ?w @ collapse_ws_of S sp ?r"
        using sw w(2) by (rule collapse_ws_of_run)
      ultimately show ?thesis using s by simp
    next
      case False
      with less.prems Cons have nc: "no_conn W ch cs" by simp
      show ?thesis
      proof (cases "S c")
        case True
        have "no_conn W ch (dropWhile S cs)"
          using nc sw by (rule no_conn_dropWhile)
        moreover have "length (dropWhile S cs) < length s"
          using Cons by (simp add: length_dropWhile_le less_Suc_eq_le)
        ultimately have "no_conn W ch (collapse_ws_of S sp (dropWhile S cs))"
          using less.hyps by blast
        with Cons True nsp show ?thesis by simp
      next
        case nS: False
        have "no_conn W ch (collapse_ws_of S sp cs)"
          using less.hyps [of cs] nc Cons by simp
        with Cons nS False show ?thesis by simp
      qed
    qed
  qed
qed

lemma rstrip_decomp:
  "rev (dropWhile P (rev s)) @ rev (takeWhile P (rev s)) = s"
  by (metis rev_append rev_rev_ident takeWhile_dropWhile_id)

lemma no_conn_strip_of:
  assumes sw: "\<forall>c. S c \<longrightarrow> \<not> W c"
  shows "no_conn W ch s \<Longrightarrow> no_conn W ch (strip_of S s)"
proof -
  assume "no_conn W ch s"
  then have a: "no_conn W ch (dropWhile S s)"
    using sw by (rule no_conn_dropWhile)
  let ?a = "dropWhile S s"
  have "\<forall>x\<in>set (rev (takeWhile S (rev ?a))). \<not> W x"
    using sw by (auto dest: set_takeWhileD)
  then have "no_conn W ch (rev (dropWhile S (rev ?a)) @ rev (takeWhile S (rev ?a)))
             = no_conn W ch (rev (dropWhile S (rev ?a)))"
    by (rule no_conn_append_nonword)
  with a show ?thesis
    by (simp only: rstrip_decomp strip_of_def)
qed

lemma spaced_collapse_ws_of:
  assumes sp: "S sp"
  shows "spaced S sp (collapse_ws_of S sp s)"
  using sp
proof (induction S sp s rule: collapse_ws_of.induct)
  case (1 S sp)
  show ?case by simp
next
  case (2 S sp c cs)
  show ?case
  proof (cases "S c")
    case True
    have "case collapse_ws_of S sp (dropWhile S cs) of [] \<Rightarrow> True | d # _ \<Rightarrow> \<not> S d"
    proof (cases "dropWhile S cs")
      case Nil
      then show ?thesis by (simp only: collapse_ws_of.simps list.case)
    next
      case (Cons d ds)
      then have "\<not> S d"
        by (metis hd_dropWhile list.sel(1) list.distinct(1))
      with Cons show ?thesis by simp
    qed
    with 2 True show ?thesis by simp
  next
    case False
    with 2 show ?thesis by simp
  qed
qed

lemma collapse_ws_of_spaced: "spaced S sp s \<Longrightarrow> collapse_ws_of S sp s = s"
proof (induction s)
  case Nil
  show ?case by simp
next
  case (Cons c cs)
  show ?case
  proof (cases "S c")
    case True
    with Cons.prems have "dropWhile S cs = cs"
      by (cases cs) simp_all
    with Cons True show ?thesis by simp
  next
    case False
    with Cons show ?thesis by simp
  qed
qed

lemma spaced_tl: "spaced S sp (c # cs) \<Longrightarrow> spaced S sp cs"
  by (simp split: if_splits)

lemma spaced_dropWhile: "spaced S sp s \<Longrightarrow> spaced S sp (dropWhile P s)"
  by (induction s) (auto dest: spaced_tl simp del: spaced.simps)

lemma spaced_prefix: "spaced S sp (s @ t) \<Longrightarrow> spaced S sp s"
proof (induction s)
  case Nil
  show ?case by simp
next
  case (Cons c cs)
  then have "spaced S sp cs" by (auto dest: spaced_tl simp del: spaced.simps)
  with Cons.prems show ?case
    by (cases cs) (auto split: if_splits)
qed

lemma spaced_strip_of: "spaced S sp s \<Longrightarrow> spaced S sp (strip_of S s)"
proof -
  assume "spaced S sp s"
  then have "spaced S sp (dropWhile S s)" by (rule spaced_dropWhile)
  then have "spaced S sp (rev (dropWhile S (rev (dropWhile S s)))
                     @ rev (takeWhile S (rev (dropWhile S s))))"
    by (simp only: rstrip_decomp)
  then show ?thesis
    unfolding strip_of_def by (rule spaced_prefix)
qed

lemma strip_of_idem: "strip_of S (strip_of S s) = strip_of S s"
proof -
  let ?a = "dropWhile S s"
  let ?b = "rev (dropWhile S (rev ?a))"
  have "dropWhile S ?b = ?b"
  proof (cases ?b)
    case Nil
    then show ?thesis by (simp only: dropWhile.simps)
  next
    case (Cons x xs)
    have "?a = ?b @ rev (takeWhile S (rev ?a))"
      by (simp only: rstrip_decomp)
    with Cons have "?a \<noteq> []" "hd ?a = x"
      by (metis append_is_Nil_conv list.distinct(1), metis hd_append2 list.sel(1) list.distinct(1))
    then have "\<not> S x"
      by (metis hd_dropWhile)
    with Cons show ?thesis by simp
  qed
  moreover have "dropWhile S (rev ?b) = rev ?b"
    by simp
  ultimately show ?thesis
    by (simp add: strip_of_def)
qed

subsection \<open>Lower case\<close>

lemma set_sub_conn_of: "set (sub_conn_of W ch pw s) \<subseteq> set s"
proof (induction W ch pw s rule: sub_conn_of.induct)
  case (1 W ch pw)
  show ?case by simp
next
  case (2 W ch pw c cs)
  show ?case
  proof (cases "match_conn_of W ch pw (c # cs)")
    case None
    with 2 show ?thesis by (auto simp: sub_conn_of.simps(2))
  next
    case (Some p)
    obtain w r where p: "p = (w, r)" by (cases p)
    with Some have "c # cs = w @ r" by (auto dest: match_conn_of_parts)
    then have "set r \<subseteq> set (c # cs)" by (simp only: set_append Un_upper2)
    moreover from Some p have "set (sub_conn_of W ch (W (last w)) r) \<subseteq> set r"
      by (intro 2(2) [of p w r]) simp_all
    moreover from Some p
    have "sub_conn_of W ch pw (c # cs) = sub_conn_of W ch (W (last w)) r"
      by (simp add: sub_conn_of.simps(2))
    ultimately show ?thesis
      by (simp only:)
  qed
qed

lemma set_collapse_ws_of: "set (collapse_ws_of S sp s) \<subseteq> insert sp (set s)"
  by (induction S sp s rule: collapse_ws_of.induct) (auto dest: set_dropWhileD)

lemma set_strip_of: "set (strip_of S s) \<subseteq> set s"
  by (auto simp: strip_of_def dest!: set_dropWhileD)

lemma lower_normalize_nome_of:
  assumes l1: "\<forall>s. \<forall>c\<in>set (lower s). lower [c] = [c]"
    and l2: "\<forall>t. (\<forall>c\<in>set t. lower [c] = [c]) \<longrightarrow> lower t = t"
    and l3: "lower [ch (CHR '' '')] = [ch (CHR '' '')]"
  shows "lower (normalize_nome_of S W lower ch x) = normalize_nome_of S W lower ch x"
proof -
  have "set (normalize_nome_of S W lower ch x) \<subseteq> insert (ch (CHR '' '')) (set (lower x))"
    unfolding normalize_nome_of_def
    using set_strip_of set_collapse_ws_of set_sub_conn_of by fast
  with l1 l3 have "\<forall>c\<in>set (normalize_nome_of S W lower ch x). lower [c] = [c]"
    by auto
  with l2 show ?thesis by blast
qed

text \<open>
  C8. The normalizer is idempotent: applying \<^verbatim>\<open>normalize_nome\<close> to its own output
  gives that output again, for every string. The strings are over any type of
  characters; what is assumed of the library's tables is that no whitespace character is
  a word character, that the space is whitespace, that the letters of the five connector
  words are word characters, that every character of a string returned by
  \<^verbatim>\<open>str.lower\<close> is left as it is by \<^verbatim>\<open>str.lower\<close>, that a string of such
  characters is returned unchanged, and that the space is such a character.
\<close>

theorem normalize_nome_idempotent:
  assumes "\<forall>c. S c \<longrightarrow> \<not> W c"
    and "S (ch (CHR '' ''))"
    and "\<forall>k\<in>set connectors. \<forall>c\<in>set k. W (ch c)"
    and "\<forall>s. \<forall>c\<in>set (lower s). lower [c] = [c]"
    and "\<forall>t. (\<forall>c\<in>set t. lower [c] = [c]) \<longrightarrow> lower t = t"
    and "lower [ch (CHR '' '')] = [ch (CHR '' '')]"
  shows "normalize_nome_of S W lower ch (normalize_nome_of S W lower ch x)
         = normalize_nome_of S W lower ch x"
proof -
  let ?n = "normalize_nome_of S W lower ch x"
  have 0: "lower ?n = ?n"
    using assms(4-6) by (rule lower_normalize_nome_of)
  have "no_conn W ch ?n"
    unfolding normalize_nome_of_def
    by (intro no_conn_strip_of [of S W, OF assms(1)]
          no_conn_collapse_ws_of [of S W, OF assms(1,2)]
          no_conn_sub_conn_of [of W ch, OF assms(3)])
  then have 1: "sub_conn_of W ch False ?n = ?n"
    by (rule sub_conn_of_no_conn [of W ch, OF assms(3)])
  have "spaced S (ch (CHR '' '')) ?n"
    unfolding normalize_nome_of_def
    by (intro spaced_strip_of spaced_collapse_ws_of [of S "ch (CHR '' '')", OF assms(2)])
  then have 2: "collapse_ws_of S (ch (CHR '' '')) ?n = ?n"
    by (rule collapse_ws_of_spaced)
  have 3: "strip_of S ?n = ?n"
    unfolding normalize_nome_of_def by (rule strip_of_idem)
  have "normalize_nome_of S W lower ch ?n
        = strip_of S (collapse_ws_of S (ch (CHR '' '')) (sub_conn_of W ch False (lower ?n)))"
    by (simp only: normalize_nome_of_def)
  also have "\<dots> = ?n"
    by (simp only: 0 1 2 3)
  finally show ?thesis .
qed

subsection \<open>The instance for the code points below 256\<close>

lemma space_not_word: "\<forall>c. is_space_py c \<longrightarrow> \<not> is_word_py c"
  by (auto simp: is_space_py_def is_word_py_def Let_def)

lemma space_is_space: "is_space_py (CHR '' '')"
  by (simp add: is_space_py_def)

lemma connectors_letters: "\<forall>k\<in>set connectors. \<forall>c\<in>set k. is_word_py c"
  by (auto simp: connectors_def is_word_py_def)

lemma lower_char_idem: "lower_char (lower_char c) = lower_char c"
  unfolding lower_char_def Let_def by auto

lemma lower_py_stable: "\<forall>s. \<forall>c\<in>set (lower_py s). lower_py [c] = [c]"
  by (auto simp: lower_py_def lower_char_idem)

lemma lower_py_fixed: "\<forall>t. (\<forall>c\<in>set t. lower_py [c] = [c]) \<longrightarrow> lower_py t = t"
  by (auto simp: lower_py_def intro: map_idI)

lemma lower_py_space: "lower_py [CHR '' ''] = [CHR '' '']"
  by (simp add: lower_py_def lower_char_def)

lemma connectors_of_id: "connectors_of (\<lambda>c. c) = connectors"
  by (simp add: connectors_of_def)

lemma word_boundary_of_py: "word_boundary_of is_word_py pw s = word_boundary pw s"
  by (simp add: word_boundary_of_def word_boundary_def)

lemma match_alts_of_py: "match_alts_of is_word_py ws s = match_alts ws s"
  by (induction ws) (simp_all add: word_boundary_of_py)

lemma match_conn_of_py: "match_conn_of is_word_py (\<lambda>c. c) pw s = match_conn pw s"
  by (simp add: match_conn_of_def match_conn_def word_boundary_of_py match_alts_of_py
      connectors_of_id)

lemma sub_conn_of_py: "sub_conn_of is_word_py (\<lambda>c. c) pw s = sub_conn pw s"
proof (induction pw s rule: sub_conn.induct)
  case (1 pw)
  show ?case by simp
next
  case (2 pw c cs)
  show ?case
  proof (cases "match_conn pw (c # cs)")
    case None
    with 2(1) show ?thesis
      by (simp only: sub_conn_of.simps(2) sub_conn.simps(2) match_conn_of_py option.case)
  next
    case (Some p)
    obtain w r where p: "p = (w, r)" by (cases p)
    with Some have m: "match_conn pw (c # cs) = Some (w, r)" by simp
    have ih: "sub_conn_of is_word_py (\<lambda>c. c) (is_word_py (last w)) r
          = sub_conn (is_word_py (last w)) r"
      by (rule 2(2) [OF m refl])
    show ?thesis
      by (simp only: sub_conn_of.simps(2) sub_conn.simps(2) match_conn_of_py m
          option.case prod.case ih)
  qed
qed

lemma collapse_ws_of_py: "collapse_ws_of is_space_py (CHR '' '') s = collapse_ws s"
  by (induction s rule: collapse_ws.induct) simp_all

lemma strip_of_py: "strip_of is_space_py s = strip_py s"
  by (simp add: strip_of_def strip_py_def)

lemma normalize_nome_of_py:
  "normalize_nome_of is_space_py is_word_py lower_py (\<lambda>c. c) x = normalize_nome x"
  by (simp add: normalize_nome_of_def normalize_nome_def sub_conn_of_py collapse_ws_of_py
      strip_of_py)

text \<open>
  The tables of the code points below 256 satisfy the six assumptions, so the function
  \<open>normalize_nome\<close> of the first section is idempotent.
\<close>

theorem normalize_nome_idempotent_witness:
  "is_space_py (CHR '' '')
   \<and> lower_py [CHR '' ''] = [CHR '' '']
   \<and> (\<forall>x. normalize_nome (normalize_nome x) = normalize_nome x)
   \<and> normalize_nome ''  Maria  DA Silva dos  Santos '' = ''maria silva santos''
   \<and> normalize_nome ''maria silva santos'' = ''maria silva santos''"
proof -
  have "\<forall>x. normalize_nome (normalize_nome x) = normalize_nome x"
    using normalize_nome_idempotent [of is_space_py is_word_py "\<lambda>c. c" lower_py,
        OF space_not_word space_is_space connectors_letters lower_py_stable lower_py_fixed
           lower_py_space]
    by (simp only: normalize_nome_of_py simp_thms)
  moreover have "normalize_nome ''  Maria  DA Silva dos  Santos '' = ''maria silva santos''"
    by code_simp
  moreover from calculation
  have "normalize_nome ''maria silva santos'' = ''maria silva santos''"
    by metis
  ultimately show ?thesis
    using space_is_space lower_py_space by (simp only: simp_thms)
qed

end
